theory Spec2Isabelle
  imports Complex_Main
begin

section \<open>Values of the program\<close>

text \<open>
  A Python \<open>str\<close> is a sequence of Unicode code points: a list of naturals. The keys of
  the state dictionary and the \<open>price_type\<close> argument are plain ASCII and are written as
  HOL strings; \<open>codepoints\<close> turns such a literal into a text.
\<close>

type_synonym pystr = "nat list"

definition codepoints :: "string \<Rightarrow> pystr" where
  "codepoints s = map of_char s"

definition euro :: nat where
  "euro = 8364"

text \<open>
  A Python \<open>float\<close>. The finite values are carried by the rationals that they denote
  (every double is one); the two infinities and NaN are values of their own, because
  \<open><\<close> and \<open>>=\<close> are both false on NaN and \<open>check_price\<close> tests both.
\<close>

datatype pyfloat = Fin rat | PosInf | NegInf | NaN

fun flt :: "pyfloat \<Rightarrow> pyfloat \<Rightarrow> bool" where
  "flt NaN _ = False"
| "flt _ NaN = False"
| "flt (Fin a) (Fin b) = (a < b)"
| "flt (Fin _) PosInf = True"
| "flt (Fin _) NegInf = False"
| "flt PosInf _ = False"
| "flt NegInf NegInf = False"
| "flt NegInf _ = True"

fun fge :: "pyfloat \<Rightarrow> pyfloat \<Rightarrow> bool" where
  "fge NaN _ = False"
| "fge _ NaN = False"
| "fge (Fin a) (Fin b) = (b \<le> a)"
| "fge (Fin _) PosInf = False"
| "fge (Fin _) NegInf = True"
| "fge PosInf _ = True"
| "fge NegInf NegInf = True"
| "fge NegInf _ = False"

text \<open>
  What \<open>json.loads\<close> can put into the state dictionary, and Python's truth value of it
  (the test \<open>state.get(notified_key, False)\<close> takes the truth value of whatever is stored).
\<close>

datatype pyval =
    PNone
  | PBool bool
  | PInt int
  | PFloat pyfloat
  | PStr pystr
  | PList "pyval list"
  | PDict "(pystr \<times> pyval) list"

fun truthy :: "pyval \<Rightarrow> bool" where
  "truthy PNone = False"
| "truthy (PBool b) = b"
| "truthy (PInt i) = (i \<noteq> 0)"
| "truthy (PFloat f) = (f \<noteq> Fin 0)"
| "truthy (PStr s) = (s \<noteq> [])"
| "truthy (PList xs) = (xs \<noteq> [])"
| "truthy (PDict kvs) = (kvs \<noteq> [])"

datatype pyexn = ValueError | AttributeError | RequestException | JSONDecodeError

type_synonym state = "string \<rightharpoonup> pyval"

definition dict_get :: "state \<Rightarrow> string \<Rightarrow> pyval \<Rightarrow> pyval" where
  "dict_get d k dflt = (case d k of None \<Rightarrow> dflt | Some v \<Rightarrow> v)"

section \<open>The state store\<close>

definition default_state :: state where
  "default_state =
     [''last_electricity_price'' \<mapsto> PNone,
      ''last_gas_price'' \<mapsto> PNone,
      ''electricity_notified'' \<mapsto> PBool False,
      ''gas_notified'' \<mapsto> PBool False]"

text \<open>
  \<open>load_state\<close>: the argument is \<open>None\<close> when \<open>state.json\<close> does not exist, and otherwise
  what \<open>json.loads\<close> makes of its text (an exception, or the dictionary read).
\<close>

definition load_state :: "(pyexn + state) option \<Rightarrow> pyexn + state" where
  "load_state file = (case file of Some r \<Rightarrow> r | None \<Rightarrow> Inr default_state)"

section \<open>Delivery of an alert\<close>

text \<open>
  The message of an alert, by the values that are formatted into it (the time stamp
  is left out).
\<close>

record alert =
  a_price_type :: string
  a_price :: pyfloat
  a_unit :: pystr
  a_target :: pyfloat
  a_url :: pystr

text \<open>
  \<open>send_telegram_message\<close>: \<open>post\<close> stands for \<open>requests.post\<close> followed by \<open>r.ok\<close>; it
  answers the flag or raises.
\<close>

definition send_telegram_message ::
  "pystr option \<Rightarrow> pystr option \<Rightarrow> (pystr \<Rightarrow> pystr \<Rightarrow> alert \<Rightarrow> pyexn + bool)
     \<Rightarrow> alert \<Rightarrow> pyexn + bool" where
  "send_telegram_message token chat_id post text =
     (case (token, chat_id) of
        (Some tok, Some chat) \<Rightarrow>
          if tok = [] \<or> chat = [] then Inr False else post tok chat text
      | _ \<Rightarrow> Inr False)"

section \<open>The alert state machine\<close>

definition price_key :: "string \<Rightarrow> string" where
  "price_key price_type =
     (if price_type = ''electricity'' then ''last_electricity_price'' else ''last_gas_price'')"

definition notified_key :: "string \<Rightarrow> string" where
  "notified_key price_type =
     (if price_type = ''electricity'' then ''electricity_notified'' else ''gas_notified'')"

definition unit_of :: "string \<Rightarrow> pystr" where
  "unit_of price_type =
     (if price_type = ''electricity'' then euro # codepoints ''/kWh''
      else euro # codepoints ''/Smc'')"

text \<open>
  \<open>check_price\<close>. The price that \<open>fetch_price_by_scraping\<close> answers is the argument
  \<open>price\<close> (\<open>None\<close> when nothing was found), and \<open>send\<close> is the delivery of the message.
  The dictionary is changed in place and returned: the model returns the new dictionary,
  together with the messages handed to \<open>send\<close>. An exception of \<open>send\<close> leaves the
  function.
\<close>

definition check_price ::
  "string \<Rightarrow> pystr \<Rightarrow> pyfloat \<Rightarrow> state \<Rightarrow> pyfloat option \<Rightarrow> (alert \<Rightarrow> pyexn + bool)
     \<Rightarrow> pyexn + (state \<times> alert list)" where
  "check_price price_type tariff_url target_price state price send =
     (case price of
        None \<Rightarrow> Inr (state, [])
      | Some p \<Rightarrow>
          let unit = unit_of price_type;
              state1 = state(price_key price_type \<mapsto> PFloat p);
              nkey = notified_key price_type
          in if flt p target_price \<and> \<not> truthy (dict_get state1 nkey (PBool False)) then
               let msg = \<lparr>a_price_type = price_type, a_price = p, a_unit = unit,
                          a_target = target_price, a_url = tariff_url\<rparr>
               in (case send msg of
                     Inl e \<Rightarrow> Inl e
                   | Inr ok \<Rightarrow>
                       Inr (if ok then state1(nkey \<mapsto> PBool True) else state1, [msg]))
             else if fge p target_price \<and> truthy (dict_get state1 nkey (PBool False)) then
               Inr (state1(nkey \<mapsto> PBool False), [])
             else Inr (state1, []))"

text \<open>
  The successive checks of the scheduled runs: each step is a commodity, the price found
  for it and what the delivery answers if it is asked. The result lists, step by step,
  the messages handed to the delivery. An exception ends the sequence, as it ends
  \<open>main\<close>.
\<close>

definition tariff_url :: pystr where
  "tariff_url = codepoints ''https://octopusenergy.it/le-nostre-tariffe''"

type_synonym step = "string \<times> pyfloat option \<times> (pyexn + bool)"

fun checks ::
  "(string \<Rightarrow> pyfloat) \<Rightarrow> state \<Rightarrow> step list \<Rightarrow> pyexn + (state \<times> alert list list)" where
  "checks target state [] = Inr (state, [])"
| "checks target state ((price_type, price, answer) # rest) =
     (case check_price price_type tariff_url (target price_type) state price (\<lambda>_. answer) of
        Inl e \<Rightarrow> Inl e
      | Inr (state1, sent) \<Rightarrow>
          (case checks target state1 rest of
             Inl e \<Rightarrow> Inl e
           | Inr (state2, trail) \<Rightarrow> Inr (state2, sent # trail)))"

definition is_notified :: "state \<Rightarrow> string \<Rightarrow> bool" where
  "is_notified state price_type =
     truthy (dict_get state (notified_key price_type) (PBool False))"

text \<open>
  When a sequence of checks sets and clears the lock of a commodity: a step sets it if
  its price is below the target and the delivery answers success; a step clears it if
  its price is at or above the target. A \<open>price_type\<close> other than \<open>electricity\<close> uses the
  keys of gas, so the steps of a commodity are those with the same \<open>notified_key\<close>.
\<close>

fun sets_lock :: "(string \<Rightarrow> pyfloat) \<Rightarrow> string \<Rightarrow> step \<Rightarrow> bool" where
  "sets_lock target k (price_type, price, answer) =
     (notified_key price_type = notified_key k \<and> answer = Inr True \<and>
      (case price of None \<Rightarrow> False | Some p \<Rightarrow> flt p (target price_type)))"

fun clears_lock :: "(string \<Rightarrow> pyfloat) \<Rightarrow> string \<Rightarrow> step \<Rightarrow> bool" where
  "clears_lock target k (price_type, price, answer) =
     (notified_key price_type = notified_key k \<and>
      (case price of None \<Rightarrow> False | Some p \<Rightarrow> fge p (target price_type)))"

section \<open>Texts: character classes, lower case, float\<close>

definition comma :: nat where "comma = 44"
definition dot :: nat where "dot = 46"

text \<open>
  \<open>\s\<close> of \<open>re\<close> on a \<open>str\<close> pattern: the Unicode white space of \<open>str.isspace\<close>.
\<close>

definition is_space :: "nat \<Rightarrow> bool" where
  "is_space c =
     ((9 \<le> c \<and> c \<le> 13) \<or> (28 \<le> c \<and> c \<le> 32) \<or> c = 133 \<or> c = 160 \<or> c = 5760
      \<or> (8192 \<le> c \<and> c \<le> 8202) \<or> c = 8232 \<or> c = 8233 \<or> c = 8239 \<or> c = 8287
      \<or> c = 12288)"

text \<open>
  \<open>\d\<close> of \<open>re\<close> on a \<open>str\<close> pattern: the decimal digits of Unicode (category Nd), which
  come in runs of ten from a zero; \<open>decimal_zeros\<close> lists the zeros (Unicode 14, the table
  of CPython 3.11). \<open>float\<close> reads each of them as its digit.
\<close>

definition decimal_zeros :: "nat list" where
  "decimal_zeros =
     [48, 1632, 1776, 1984, 2406, 2534, 2662, 2790, 2918, 3046, 3174, 3302, 3430, 3558,
      3664, 3792, 3872, 4160, 4240, 6112, 6160, 6470, 6608, 6784, 6800, 6992, 7088, 7232,
      7248, 42528, 43216, 43264, 43472, 43504, 43600, 44016, 65296, 66720, 68912, 69734,
      69872, 69942, 70096, 70384, 70736, 70864, 71248, 71360, 71472, 71904, 72016, 72784,
      73040, 73120, 92768, 92864, 93008, 120782, 120792, 120802, 120812, 120822, 123200,
      123632, 125264, 130032]"

fun zero_of :: "nat list \<Rightarrow> nat \<Rightarrow> nat option" where
  "zero_of [] c = None"
| "zero_of (z # zs) c = (if z \<le> c \<and> c < z + 10 then Some z else zero_of zs c)"

definition digit_value :: "nat \<Rightarrow> nat option" where
  "digit_value c = map_option (\<lambda>z. c - z) (zero_of decimal_zeros c)"

definition is_digit :: "nat \<Rightarrow> bool" where
  "is_digit c = (digit_value c \<noteq> None)"

text \<open>
  \<open>str.lower\<close>. The code points whose lower case holds an ASCII character are the
  letters \<open>A\<close> to \<open>Z\<close>, U+0130 (to \<open>i\<close> and U+0307) and the Kelvin sign U+212A (to \<open>k\<close>).
  The other cased letters of Unicode go to letters outside ASCII, which no pattern below
  tells from the letters they come from; they are left as they are.
\<close>

definition lower_cp :: "nat \<Rightarrow> pystr" where
  "lower_cp c =
     (if 65 \<le> c \<and> c \<le> 90 then [c + 32]
      else if c = 304 then [105, 775]
      else if c = 8490 then [107]
      else [c])"

definition str_lower :: "pystr \<Rightarrow> pystr" where
  "str_lower s = concat (map lower_cp s)"

text \<open>\<open>num.replace(",", ".")\<close>\<close>

definition sep_norm :: "nat \<Rightarrow> nat" where
  "sep_norm c = (if c = comma then dot else c)"

definition replace_comma :: "pystr \<Rightarrow> pystr" where
  "replace_comma s = map sep_norm s"

text \<open>
  \<open>float(num)\<close> on the texts that reach it here: digits, with at most one period among
  them, and at least one digit. The value is the decimal that is written: the rounding to
  the nearest double, and the infinity that Python answers for a numeral beyond the range
  of doubles, are not modelled. On every other text the model answers \<open>None\<close>, the
  \<open>ValueError\<close> of Python (which accepts more: signs, exponents, underscores, \<open>inf\<close>,
  \<open>nan\<close>, blanks around).
\<close>

fun digits_acc :: "nat \<Rightarrow> pystr \<Rightarrow> nat option" where
  "digits_acc a [] = Some a"
| "digits_acc a (c # cs) =
     (case digit_value c of None \<Rightarrow> None | Some d \<Rightarrow> digits_acc (10 * a + d) cs)"

definition float_of_str :: "pystr \<Rightarrow> pyfloat option" where
  "float_of_str s =
     (let ip = takeWhile (\<lambda>c. c \<noteq> dot) s; rest = dropWhile (\<lambda>c. c \<noteq> dot) s
      in case rest of
           [] \<Rightarrow> if ip = [] then None
                 else map_option (\<lambda>n. Fin (of_nat n)) (digits_acc 0 ip)
         | _ # fp \<Rightarrow>
             if ip = [] \<and> fp = [] then None
             else (case (digits_acc 0 ip, digits_acc 0 fp) of
                     (Some a, Some b) \<Rightarrow> Some (Fin (of_nat a + of_nat b / 10 ^ length fp))
                   | _ \<Rightarrow> None))"

section \<open>Regular expressions\<close>

text \<open>
  The fragment of \<open>re\<close> that the patterns are written in: a literal character, a class
  (\<open>\d\<close>, \<open>\s\<close>, \<open>[.,]\<close>, \<open>[^>]\<close>), the greedy \<open>*\<close> and \<open>+\<close> of a class, the greedy \<open>?\<close>,
  the capturing group and the sequence.
\<close>

datatype cclass = Digit | Space | AnyOf "nat list" | NoneOf "nat list"

fun in_class :: "cclass \<Rightarrow> nat \<Rightarrow> bool" where
  "in_class Digit c = is_digit c"
| "in_class Space c = is_space c"
| "in_class (AnyOf cs) c = (c \<in> set cs)"
| "in_class (NoneOf cs) c = (c \<notin> set cs)"

datatype regex =
    Eps
  | Lit nat
  | Cls cclass
  | Star cclass
  | Plus cclass
  | Opt regex
  | Group regex
  | Seq regex regex

text \<open>
  The backtracking matcher at one position: every way in which the expression matches a
  prefix of the text, in the order in which \<open>re\<close> tries them (a greedy repetition the
  longest first, an option taken before it is left out). A way is the text of group 1,
  if the group took part, and the rest of the text. The first way is the match of \<open>re\<close>.
  \<open>star_ways\<close> lists the rests that a greedy \<open>*\<close> of a class can leave: it takes one more
  character while it can, and gives the characters back one by one.
\<close>

fun star_ways :: "cclass \<Rightarrow> pystr \<Rightarrow> pystr list" where
  "star_ways k [] = [[]]"
| "star_ways k (x # xs) = (if in_class k x then star_ways k xs @ [x # xs] else [x # xs])"

fun rmatch :: "regex \<Rightarrow> pystr \<Rightarrow> (pystr option \<times> pystr) list" where
  "rmatch Eps s = [(None, s)]"
| "rmatch (Lit c) s =
     (case s of [] \<Rightarrow> [] | x # xs \<Rightarrow> if x = c then [(None, xs)] else [])"
| "rmatch (Cls k) s =
     (case s of [] \<Rightarrow> [] | x # xs \<Rightarrow> if in_class k x then [(None, xs)] else [])"
| "rmatch (Star k) s = map (Pair None) (star_ways k s)"
| "rmatch (Plus k) s =
     (case s of
        [] \<Rightarrow> []
      | x # xs \<Rightarrow> if in_class k x then map (Pair None) (star_ways k xs) else [])"
| "rmatch (Opt r) s = rmatch r s @ [(None, s)]"
| "rmatch (Group r) s =
     map (\<lambda>(g, rest). (Some (take (length s - length rest) s), rest)) (rmatch r s)"
| "rmatch (Seq a b) s =
     concat (map (\<lambda>(g, rest).
        map (\<lambda>(g', rest'). (case g' of None \<Rightarrow> g | Some w \<Rightarrow> Some w, rest'))
            (rmatch b rest)) (rmatch a s))"

text \<open>
  \<open>re.search\<close> followed by \<open>m.group(1)\<close>: the first position of the text, from the left,
  at which the expression matches, and the group of the first way there. \<open>None\<close> is no
  match; \<open>Some None\<close> a match in which the group took no part.
\<close>

fun search :: "regex \<Rightarrow> pystr \<Rightarrow> pystr option option" where
  "search r [] = (case rmatch r [] of [] \<Rightarrow> None | (g, rest) # others \<Rightarrow> Some g)"
| "search r (x # xs) =
     (case rmatch r (x # xs) of [] \<Rightarrow> search r xs | (g, rest) # others \<Rightarrow> Some g)"

definition seq :: "regex list \<Rightarrow> regex" where
  "seq rs = foldr Seq rs Eps"

definition lits :: "string \<Rightarrow> regex" where
  "lits s = seq (map (\<lambda>c. Lit (of_char c)) s)"

section \<open>The patterns of \<open>extract_price_from_text\<close>\<close>

text \<open>\<open>(\d+[.,]\d+)\<close>\<close>

definition numeral_body :: regex where
  "numeral_body = Seq (Plus Digit) (Seq (Cls (AnyOf [dot, comma])) (Plus Digit))"

definition num :: regex where
  "num = Group numeral_body"

text \<open>\<open>(?:\s*<!--[^>]*-->)?\<close>\<close>

definition opt_comment :: regex where
  "opt_comment = Opt (seq [Star Space, lits ''<!--'', Star (NoneOf [of_char CHR ''>'']), lits ''-->''])"

definition ws :: regex where
  "ws = Star Space"

definition opt_slash :: regex where
  "opt_slash = Opt (Lit (of_char CHR ''/''))"

definition gas_patterns :: "regex list" where
  "gas_patterns =
     [seq [num, opt_comment, ws, Lit euro, ws, opt_slash, ws, Opt (lits ''s''), lits ''mc''],
      seq [Lit euro, ws, num, opt_comment, ws, opt_slash, ws, Opt (lits ''s''), lits ''mc''],
      seq [num, opt_comment, ws, Lit euro, lits ''/smc''],
      seq [num, opt_comment, ws, Lit euro, lits ''/mc''],
      seq [num, ws, Lit euro, ws, opt_slash, ws, Opt (lits ''s''), lits ''mc''],
      seq [Lit euro, ws, num, ws, opt_slash, ws, Opt (lits ''s''), lits ''mc''],
      seq [num, ws, Lit euro, lits ''/smc''],
      seq [num, ws, Lit euro, lits ''/mc'']]"

definition electricity_patterns :: "regex list" where
  "electricity_patterns =
     [seq [num, opt_comment, ws, Lit euro, ws, opt_slash, ws, Opt (lits ''k''),
           Opt (lits '' ''), lits ''wh''],
      seq [Lit euro, ws, num, opt_comment, ws, opt_slash, ws, Opt (lits ''k''),
           Opt (lits '' ''), lits ''wh''],
      seq [num, opt_comment, ws, Lit euro, lits ''/kWh''],
      seq [num, opt_comment, ws, Lit euro, lits ''/kW''],
      seq [num, ws, Lit euro, ws, opt_slash, ws, Opt (lits ''k''), Opt (lits '' ''),
           lits ''wh''],
      seq [Lit euro, ws, num, ws, opt_slash, ws, Opt (lits ''k''), Opt (lits '' ''),
           lits ''wh''],
      seq [num, ws, Lit euro, lits ''/kWh''],
      seq [num, ws, Lit euro, lits ''/kW'']]"

text \<open>\<open>(\d+[.,]\d+)\s*\<euro>\<close>, the pattern tried after the loop.\<close>

definition fallback_pattern :: regex where
  "fallback_pattern = seq [num, ws, Lit euro]"

definition patterns_for :: "string \<Rightarrow> regex list" where
  "patterns_for price_type =
     (if price_type = ''gas'' then gas_patterns else electricity_patterns)"

section \<open>\<open>extract_price_from_text\<close>\<close>

text \<open>
  The loop over the patterns. \<open>None\<close>: the loop ran to its end without returning.
  \<open>m.group(1).replace\<close> stands before the \<open>try\<close>, so a match without group 1 raises;
  a numeral that \<open>float\<close> refuses is skipped by \<open>except: continue\<close>. The conversion
  \<open>flo\<close> is an argument, so that the loop can be read on a conversion that fails.
\<close>

fun try_patterns ::
  "(pystr \<Rightarrow> pyfloat option) \<Rightarrow> regex list \<Rightarrow> pystr \<Rightarrow> (pyexn + pyfloat) option" where
  "try_patterns flo [] low = None"
| "try_patterns flo (p # ps) low =
     (case search p low of
        None \<Rightarrow> try_patterns flo ps low
      | Some None \<Rightarrow> Some (Inl AttributeError)
      | Some (Some g) \<Rightarrow>
          (case flo (replace_comma g) of
             Some v \<Rightarrow> Some (Inr v)
           | None \<Rightarrow> try_patterns flo ps low))"

definition extract_with ::
  "(pystr \<Rightarrow> pyfloat option) \<Rightarrow> pystr \<Rightarrow> string \<Rightarrow> pyexn + pyfloat option" where
  "extract_with flo text price_type =
     (let patterns = patterns_for price_type;
          low = str_lower text
      in case try_patterns flo patterns low of
           Some (Inl e) \<Rightarrow> Inl e
         | Some (Inr v) \<Rightarrow> Inr (Some v)
         | None \<Rightarrow>
             (case search fallback_pattern low of
                None \<Rightarrow> Inr None
              | Some None \<Rightarrow> Inl AttributeError
              | Some (Some g) \<Rightarrow>
                  (case flo (replace_comma g) of
                     Some v \<Rightarrow> Inr (Some v)
                   | None \<Rightarrow> Inl ValueError)))"

definition extract_price_from_text :: "pystr \<Rightarrow> string \<Rightarrow> pyexn + pyfloat option" where
  "extract_price_from_text text price_type = extract_with float_of_str text price_type"

text \<open>The value that a pattern finds in a lowered text, if it matches.\<close>

definition pattern_value :: "regex \<Rightarrow> pystr \<Rightarrow> pyfloat option" where
  "pattern_value p low =
     (case search p low of
        Some (Some g) \<Rightarrow> float_of_str (replace_comma g)
      | _ \<Rightarrow> None)"

section \<open>Notions used in the proofs\<close>

text \<open>A numeral as \<open>(\d+[.,]\d+)\<close> captures it: digits, a period or a comma, digits.\<close>

definition is_numeral :: "pystr \<Rightarrow> bool" where
  "is_numeral w =
     (\<exists>d1 c d2. w = d1 @ c # d2 \<and> d1 \<noteq> [] \<and> d2 \<noteq> [] \<and> list_all is_digit d1
        \<and> list_all is_digit d2 \<and> (c = dot \<or> c = comma))"

text \<open>An expression without a group, and one whose only group is the numeral, not under
  an option.\<close>

fun grp_free :: "regex \<Rightarrow> bool" where
  "grp_free (Group r) = False"
| "grp_free (Opt r) = grp_free r"
| "grp_free (Seq a b) = (grp_free a \<and> grp_free b)"
| "grp_free _ = True"

fun grp_num :: "regex \<Rightarrow> bool" where
  "grp_num (Group r) = (r = numeral_body)"
| "grp_num (Seq a b) = ((grp_num a \<and> grp_free b) \<or> (grp_free a \<and> grp_num b))"
| "grp_num _ = False"

text \<open>A class, and an expression, that does not tell a comma from a period.\<close>

definition class_blind :: "cclass \<Rightarrow> bool" where
  "class_blind k = (in_class k comma = in_class k dot)"

fun sep_blind :: "regex \<Rightarrow> bool" where
  "sep_blind Eps = True"
| "sep_blind (Lit c) = (c \<noteq> comma \<and> c \<noteq> dot)"
| "sep_blind (Cls k) = class_blind k"
| "sep_blind (Star k) = class_blind k"
| "sep_blind (Plus k) = class_blind k"
| "sep_blind (Opt r) = sep_blind r"
| "sep_blind (Group r) = sep_blind r"
| "sep_blind (Seq a b) = (sep_blind a \<and> sep_blind b)"

text \<open>An expression that matches only where a given character stands in the text.\<close>

fun needs :: "nat \<Rightarrow> regex \<Rightarrow> bool" where
  "needs c (Lit d) = (c = d)"
| "needs c (Group r) = needs c r"
| "needs c (Seq a b) = (needs c a \<or> needs c b)"
| "needs c _ = False"

text \<open>A way of matching, with the commas of its texts turned into periods.\<close>

definition norm_way :: "pystr option \<times> pystr \<Rightarrow> pystr option \<times> pystr" where
  "norm_way = map_prod (map_option replace_comma) replace_comma"

text \<open>The first way in which an expression matches at the head of a text: the match
  of \<open>re.match\<close>.\<close>

definition first_way :: "regex \<Rightarrow> pystr \<Rightarrow> (pystr option \<times> pystr) option" where
  "first_way r s = (case rmatch r s of [] \<Rightarrow> None | way # others \<Rightarrow> Some way)"

text \<open>The decimal that the digits \<open>d1\<close>, a separator and the digits \<open>d2\<close> write.\<close>

fun digits_nat :: "nat \<Rightarrow> pystr \<Rightarrow> nat" where
  "digits_nat a [] = a"
| "digits_nat a (c # cs) =
     digits_nat (10 * a + (case digit_value c of None \<Rightarrow> 0 | Some d \<Rightarrow> d)) cs"

definition decimal_of :: "pystr \<Rightarrow> pystr \<Rightarrow> pyfloat" where
  "decimal_of d1 d2 = Fin (of_nat (digits_nat 0 d1) + of_nat (digits_nat 0 d2) / 10 ^ length d2)"

section \<open>Properties of the alert state machine\<close>

lemma keys_distinct [simp]:
  "price_key a \<noteq> notified_key b" "notified_key b \<noteq> price_key a"
  by (simp_all add: price_key_def notified_key_def)

lemma flt_not_fge: "flt p t \<Longrightarrow> \<not> fge p t"
  by (cases p; cases t) simp_all

text \<open>
  C1. Prices 0.05, 0.05, 0.12, 0.05 for electricity against the target 0.11, from the
  default state and with a delivery that always succeeds: one message is handed to the
  delivery at the first check, none at the second and third, one at the fourth, two in all.
\<close>

theorem hysteresis_two_attempts:
  "\<exists>st a1 a2.
     checks (\<lambda>_. Fin (11 / 100)) default_state
       [(''electricity'', Some (Fin (5 / 100)), Inr True),
        (''electricity'', Some (Fin (5 / 100)), Inr True),
        (''electricity'', Some (Fin (12 / 100)), Inr True),
        (''electricity'', Some (Fin (5 / 100)), Inr True)]
       = Inr (st, [[a1], [], [], [a2]])
     \<and> a_price a1 = Fin (5 / 100) \<and> a_price a2 = Fin (5 / 100)
     \<and> length (concat [[a1], [], [], [a2]]) = 2"
  by (simp add: check_price_def default_state_def dict_get_def price_key_def
        notified_key_def Let_def)

lemma check_price_lock:
  assumes "check_price pt url (target pt) st0 price (\<lambda>_. answer) = Inr (st1, sent)"
  shows "is_notified st1 k =
           (sets_lock target k (pt, price, answer)
            \<or> (is_notified st0 k \<and> \<not> clears_lock target k (pt, price, answer)))"
proof (cases price)
  case None
  with assms show ?thesis by (simp add: check_price_def)
next
  case (Some p)
  show ?thesis
  proof (cases "notified_key pt = notified_key k")
    case True
    with assms Some show ?thesis
      by (cases answer)
         (auto simp add: check_price_def is_notified_def dict_get_def Let_def
               dest: flt_not_fge split: if_splits)
  next
    case False
    with assms Some show ?thesis
      by (cases answer)
         (auto simp add: check_price_def is_notified_def dict_get_def Let_def
               split: if_splits)
  qed
qed

lemma checks_lock:
  "checks target st0 steps = Inr (st, trail) \<Longrightarrow>
   is_notified st k =
     ((\<exists>pre s post. steps = pre @ s # post \<and> sets_lock target k s
          \<and> (\<forall>c \<in> set post. \<not> clears_lock target k c))
      \<or> (is_notified st0 k \<and> (\<forall>c \<in> set steps. \<not> clears_lock target k c)))"
proof (induction steps arbitrary: st0 trail)
  case Nil
  then show ?case by simp
next
  case (Cons x xs)
  obtain pt price answer where x: "x = (pt, price, answer)" by (cases x)
  from Cons.prems x obtain st1 sent rest where
    one: "check_price pt tariff_url (target pt) st0 price (\<lambda>_. answer) = Inr (st1, sent)"
    and more: "checks target st1 xs = Inr (st, rest)"
    by (auto split: sum.splits prod.splits)
  let ?tail = "\<exists>pre s post. xs = pre @ s # post \<and> sets_lock target k s
          \<and> (\<forall>c \<in> set post. \<not> clears_lock target k c)"
  let ?quiet = "\<forall>c \<in> set xs. \<not> clears_lock target k c"
  have ih: "is_notified st k = (?tail \<or> (is_notified st1 k \<and> ?quiet))"
    by (rule Cons.IH [OF more])
  have first: "is_notified st1 k =
      (sets_lock target k x \<or> (is_notified st0 k \<and> \<not> clears_lock target k x))"
    using check_price_lock [where target = target, OF one] x by simp
  have split: "(\<exists>pre s post. x # xs = pre @ s # post \<and> sets_lock target k s
          \<and> (\<forall>c \<in> set post. \<not> clears_lock target k c))
        = ((sets_lock target k x \<and> ?quiet) \<or> ?tail)"
  proof
    assume "\<exists>pre s post. x # xs = pre @ s # post \<and> sets_lock target k s
          \<and> (\<forall>c \<in> set post. \<not> clears_lock target k c)"
    then obtain pre s post where e: "x # xs = pre @ s # post" and s: "sets_lock target k s"
      and q: "\<forall>c \<in> set post. \<not> clears_lock target k c" by blast
    show "(sets_lock target k x \<and> ?quiet) \<or> ?tail"
    proof (cases pre)
      case Nil
      with e s q show ?thesis by simp
    next
      case (Cons y ys)
      with e have "xs = ys @ s # post" by simp
      with s q show ?thesis by blast
    qed
  next
    assume "(sets_lock target k x \<and> ?quiet) \<or> ?tail"
    then show "\<exists>pre s post. x # xs = pre @ s # post \<and> sets_lock target k s
          \<and> (\<forall>c \<in> set post. \<not> clears_lock target k c)"
    proof
      assume "sets_lock target k x \<and> ?quiet"
      then have "x # xs = [] @ x # xs \<and> sets_lock target k x \<and> ?quiet" by simp
      then show ?thesis by blast
    next
      assume ?tail
      then obtain pre s post where "xs = pre @ s # post" "sets_lock target k s"
        "\<forall>c \<in> set post. \<not> clears_lock target k c" by blast
      then have "x # xs = (x # pre) @ s # post \<and> sets_lock target k s
          \<and> (\<forall>c \<in> set post. \<not> clears_lock target k c)" by simp
      then show ?thesis by blast
    qed
  qed
  show ?case unfolding split ih first by auto
qed

text \<open>
  C2. For every commodity and every sequence of checks from the default state that
  returns: the lock of the commodity is set at the end exactly when some check of that
  commodity found a price below its target with a successful delivery, and no later check
  of that commodity found a price at or above its target. So the lock is only ever set
  on a price below the target, and once set it stays until a price at or above the
  target: a check that finds no price, or a price below the target, does not clear it.
\<close>

theorem lock_set_below_target_until_recovery:
  assumes "checks target default_state steps = Inr (st, trail)"
  shows "is_notified st k =
     (\<exists>pre s post. steps = pre @ s # post \<and> sets_lock target k s
          \<and> (\<forall>c \<in> set post. \<not> clears_lock target k c))"
proof -
  have "\<not> is_notified default_state k"
    by (simp add: is_notified_def default_state_def dict_get_def notified_key_def)
  with checks_lock [OF assms, of k] show ?thesis by simp
qed

theorem lock_set_below_target_until_recovery_witness:
  "checks (\<lambda>_. Fin (11 / 100)) default_state
       [(''electricity'', Some (Fin (5 / 100)), Inr True),
        (''electricity'', None, Inr True),
        (''gas'', Some (Fin 1), Inr True)]
     = Inr (default_state(''last_electricity_price'' \<mapsto> PFloat (Fin (5 / 100)),
                          ''electricity_notified'' \<mapsto> PBool True,
                          ''last_gas_price'' \<mapsto> PFloat (Fin 1)),
            [[\<lparr>a_price_type = ''electricity'', a_price = Fin (5 / 100),
               a_unit = unit_of ''electricity'', a_target = Fin (11 / 100),
               a_url = tariff_url\<rparr>], [], []])
   \<and> (\<exists>pre s post.
        [(''electricity'', Some (Fin (5 / 100)), Inr True),
         (''electricity'', None, Inr True),
         (''gas'', Some (Fin 1), Inr True)] = pre @ s # post
        \<and> sets_lock (\<lambda>_. Fin (11 / 100)) ''electricity'' s
        \<and> (\<forall>c \<in> set post. \<not> clears_lock (\<lambda>_. Fin (11 / 100)) ''electricity'' c))"
proof -
  have run: "checks (\<lambda>_. Fin (11 / 100)) default_state
       [(''electricity'', Some (Fin (5 / 100)), Inr True),
        (''electricity'', None, Inr True),
        (''gas'', Some (Fin 1), Inr True)]
     = Inr (default_state(''last_electricity_price'' \<mapsto> PFloat (Fin (5 / 100)),
                          ''electricity_notified'' \<mapsto> PBool True,
                          ''last_gas_price'' \<mapsto> PFloat (Fin 1)),
            [[\<lparr>a_price_type = ''electricity'', a_price = Fin (5 / 100),
               a_unit = unit_of ''electricity'', a_target = Fin (11 / 100),
               a_url = tariff_url\<rparr>], [], []])"
    by (simp add: check_price_def default_state_def dict_get_def price_key_def
          notified_key_def Let_def)
  have "is_notified (default_state(''last_electricity_price'' \<mapsto> PFloat (Fin (5 / 100)),
                          ''electricity_notified'' \<mapsto> PBool True,
                          ''last_gas_price'' \<mapsto> PFloat (Fin 1))) ''electricity''"
    by (simp add: is_notified_def dict_get_def notified_key_def)
  with lock_set_below_target_until_recovery [OF run, of "''electricity''"] run
  show ?thesis by simp
qed

text \<open>
  C3. When no price was found, \<open>check_price\<close> returns the dictionary it was given, whatever
  it holds, and hands no message to the delivery; so the lock keeps its value.
\<close>

theorem absent_price_leaves_state:
  "check_price price_type url target state None send = Inr (state, [])
   \<and> (\<exists>st. check_price price_type url target state None send = Inr (st, [])
          \<and> is_notified st price_type = is_notified state price_type)"
  by (simp add: check_price_def)

text \<open>
  C4. A price below the target while the lock is not set: the message is handed to the
  delivery; if the delivery answers failure, only the last price is stored and the lock
  is still not set; if it answers success, the lock is set as well.
\<close>

theorem delivery_answer_decides_lock:
  assumes "flt p target" and "\<not> is_notified state price_type"
    and "send \<lparr>a_price_type = price_type, a_price = p, a_unit = unit_of price_type,
               a_target = target, a_url = url\<rparr> = Inr ok"
  shows "\<exists>st. check_price price_type url target state (Some p) send
           = Inr (st, [\<lparr>a_price_type = price_type, a_price = p,
                         a_unit = unit_of price_type, a_target = target, a_url = url\<rparr>])
         \<and> st = (if ok then state(price_key price_type \<mapsto> PFloat p,
                                   notified_key price_type \<mapsto> PBool True)
                 else state(price_key price_type \<mapsto> PFloat p))
         \<and> is_notified st price_type = ok"
  using assms
  by (simp add: check_price_def is_notified_def dict_get_def Let_def)

theorem delivery_answer_decides_lock_witness:
  "flt (Fin (5 / 100)) (Fin (11 / 100)) \<and> \<not> is_notified default_state ''electricity''
   \<and> (\<exists>st sent. check_price ''electricity'' tariff_url (Fin (11 / 100)) default_state
                   (Some (Fin (5 / 100))) (\<lambda>_. Inr False) = Inr (st, sent)
          \<and> \<not> is_notified st ''electricity'')
   \<and> (\<exists>st sent. check_price ''electricity'' tariff_url (Fin (11 / 100)) default_state
                   (Some (Fin (5 / 100))) (\<lambda>_. Inr True) = Inr (st, sent)
          \<and> is_notified st ''electricity'')"
proof -
  have below: "flt (Fin (5 / 100)) (Fin (11 / 100))" by simp
  have armed: "\<not> is_notified default_state ''electricity''"
    by (simp add: is_notified_def default_state_def dict_get_def notified_key_def)
  from delivery_answer_decides_lock [OF below armed,
         where send = "\<lambda>_. Inr False" and url = tariff_url and ok = False]
       delivery_answer_decides_lock [OF below armed,
         where send = "\<lambda>_. Inr True" and url = tariff_url and ok = True]
       below armed
  show ?thesis by auto
qed

text \<open>
  C5. With a delivery that always succeeds, a second check with the same price and target
  on the dictionary that the first check returned gives that dictionary back and hands no
  message to the delivery.
\<close>

theorem second_check_changes_nothing:
  "\<exists>st1 sent. check_price price_type url target state (Some p) (\<lambda>_. Inr True) = Inr (st1, sent)
     \<and> check_price price_type url target st1 (Some p) (\<lambda>_. Inr True) = Inr (st1, [])"
  by (auto simp add: check_price_def dict_get_def Let_def flt_not_fge split: option.splits)

text \<open>
  C10. When the dictionary has no entry under the commodity's lock key, the check goes
  as with an unset lock: a price below the target hands the message to the delivery, and
  any other price only stores the last price, so the branch that clears the lock is not
  taken and the key stays absent.
\<close>

theorem missing_lock_key_is_unset:
  assumes "state (notified_key price_type) = None"
  shows "check_price price_type url target state (Some p) send =
     (if flt p target then
        (case send \<lparr>a_price_type = price_type, a_price = p, a_unit = unit_of price_type,
                     a_target = target, a_url = url\<rparr> of
           Inl e \<Rightarrow> Inl e
         | Inr ok \<Rightarrow>
             Inr (if ok then state(price_key price_type \<mapsto> PFloat p,
                                   notified_key price_type \<mapsto> PBool True)
                  else state(price_key price_type \<mapsto> PFloat p),
                  [\<lparr>a_price_type = price_type, a_price = p, a_unit = unit_of price_type,
                     a_target = target, a_url = url\<rparr>]))
      else Inr (state(price_key price_type \<mapsto> PFloat p), []))"
  using assms
  by (simp add: check_price_def dict_get_def Let_def)

theorem missing_lock_key_is_unset_witness:
  "Map.empty (notified_key ''gas'') = (None :: pyval option)
   \<and> (\<exists>st a. check_price ''gas'' tariff_url (Fin (85 / 100)) Map.empty
                (Some (Fin (80 / 100))) (\<lambda>_. Inr False) = Inr (st, [a]))
   \<and> check_price ''gas'' tariff_url (Fin (85 / 100)) Map.empty
                (Some (Fin (90 / 100))) (\<lambda>_. Inr False)
       = Inr ([''last_gas_price'' \<mapsto> PFloat (Fin (90 / 100))], [])"
proof -
  have absent: "Map.empty (notified_key ''gas'') = (None :: pyval option)" by simp
  from missing_lock_key_is_unset [OF absent, where url = tariff_url
         and target = "Fin (85 / 100)" and p = "Fin (80 / 100)" and send = "\<lambda>_. Inr False"]
       missing_lock_key_is_unset [OF absent, where url = tariff_url
         and target = "Fin (85 / 100)" and p = "Fin (90 / 100)" and send = "\<lambda>_. Inr False"]
  show ?thesis by (simp add: price_key_def)
qed

section \<open>Properties of the matcher\<close>

lemma is_digit_low: "c < 1632 \<Longrightarrow> is_digit c = (48 \<le> c \<and> c < 58)"
  by (auto simp add: is_digit_def digit_value_def decimal_zeros_def)

lemma digit_value_ascii: "48 \<le> c \<Longrightarrow> c < 58 \<Longrightarrow> digit_value c = Some (c - 48)"
  by (simp add: digit_value_def decimal_zeros_def)

lemma not_digit_euro: "\<not> is_digit 8364"
  by (simp add: is_digit_def digit_value_def decimal_zeros_def)

lemma not_digit_sep: "\<not> is_digit dot" "\<not> is_digit comma"
  by (simp_all add: is_digit_low dot_def comma_def)

lemma star_ways_suffix:
  "r \<in> set (star_ways k s) \<Longrightarrow> \<exists>w. s = w @ r \<and> list_all (in_class k) w"
proof (induction s)
  case Nil
  then show ?case by simp
next
  case (Cons x xs)
  show ?case
  proof (cases "r = x # xs")
    case True
    then show ?thesis by simp
  next
    case False
    with Cons.prems have x: "in_class k x" and "r \<in> set (star_ways k xs)"
      by (auto split: if_splits)
    with Cons.IH obtain w where "xs = w @ r" "list_all (in_class k) w" by blast
    with x have "x # xs = (x # w) @ r \<and> list_all (in_class k) (x # w)" by simp
    then show ?thesis by blast
  qed
qed

lemma rmatch_suffix: "(g, rest) \<in> set (rmatch r s) \<Longrightarrow> \<exists>w. s = w @ rest"
proof (induction r arbitrary: s g rest)
  case (Star k)
  then show ?case using star_ways_suffix [of rest k s] by auto
next
  case (Plus k)
  then obtain x xs where s: "s = x # xs" and "rest \<in> set (star_ways k xs)"
    by (cases s) (auto split: if_splits)
  with star_ways_suffix [of rest k xs] obtain w where "xs = w @ rest" by blast
  with s have "s = (x # w) @ rest" by simp
  then show ?case by blast
next
  case (Seq a b)
  then obtain g1 mid g2 where a: "(g1, mid) \<in> set (rmatch a s)"
    and b: "(g2, rest) \<in> set (rmatch b mid)"
    by auto
  from Seq.IH(1) [OF a] obtain w1 where "s = w1 @ mid" by blast
  moreover from Seq.IH(2) [OF b] obtain w2 where "mid = w2 @ rest" by blast
  ultimately have "s = (w1 @ w2) @ rest" by simp
  then show ?case by blast
qed (auto split: list.splits if_splits)

lemma seq_ways:
  "(g, rest) \<in> set (rmatch (Seq a b) s) =
     (\<exists>g1 mid g2. (g1, mid) \<in> set (rmatch a s) \<and> (g2, rest) \<in> set (rmatch b mid)
        \<and> g = (case g2 of None \<Rightarrow> g1 | Some w \<Rightarrow> Some w))"
  by force

lemma grp_free_none: "grp_free r \<Longrightarrow> (g, rest) \<in> set (rmatch r s) \<Longrightarrow> g = None"
proof (induction r arbitrary: s g rest)
  case (Seq a b)
  then show ?case by (auto split: option.splits) 
qed (auto split: list.splits if_splits)

lemma plus_digit_ways:
  assumes "(g, rest) \<in> set (rmatch (Plus k) s)"
  shows "\<exists>w. s = w @ rest \<and> w \<noteq> [] \<and> list_all (in_class k) w"
proof -
  from assms obtain x xs where s: "s = x # xs" and x: "in_class k x"
    and "rest \<in> set (star_ways k xs)"
    by (cases s) (auto split: if_splits)
  with star_ways_suffix [of rest k xs] obtain w where "xs = w @ rest" "list_all (in_class k) w"
    by blast
  with s x have "s = (x # w) @ rest \<and> x # w \<noteq> [] \<and> list_all (in_class k) (x # w)" by simp
  then show ?thesis by blast
qed

lemma numeral_body_ways:
  assumes "(g, rest) \<in> set (rmatch numeral_body s)"
  shows "\<exists>w. s = w @ rest \<and> is_numeral w"
proof -
  from assms obtain g1 s1 g2 s2 g3 where
    a: "(g1, s1) \<in> set (rmatch (Plus Digit) s)"
    and b: "(g2, s2) \<in> set (rmatch (Cls (AnyOf [dot, comma])) s1)"
    and c: "(g3, rest) \<in> set (rmatch (Plus Digit) s2)"
    unfolding numeral_body_def seq_ways by blast
  from plus_digit_ways [OF a] obtain d1 where d1: "s = d1 @ s1" "d1 \<noteq> []" "list_all is_digit d1"
    by (auto simp add: list_all_iff)
  from b obtain x where x: "s1 = x # s2" "x = dot \<or> x = comma"
    by (cases s1) (auto split: if_splits)
  from plus_digit_ways [OF c] obtain d2 where d2: "s2 = d2 @ rest" "d2 \<noteq> []" "list_all is_digit d2"
    by (auto simp add: list_all_iff)
  from d1 x d2 have "s = (d1 @ x # d2) @ rest" by simp
  moreover from d1 x d2 have "is_numeral (d1 @ x # d2)" unfolding is_numeral_def by blast
  ultimately show ?thesis by blast
qed

lemma grp_num_some:
  "grp_num r \<Longrightarrow> (g, rest) \<in> set (rmatch r s) \<Longrightarrow> \<exists>w. g = Some w \<and> is_numeral w"
proof (induction r arbitrary: s g rest)
  case (Group r)
  then have r: "r = numeral_body" by simp
  from Group.prems(2) obtain g0 where m: "(g0, rest) \<in> set (rmatch numeral_body s)"
    and g: "g = Some (take (length s - length rest) s)"
    unfolding r by auto
  from numeral_body_ways [OF m] obtain w where "s = w @ rest" "is_numeral w" by blast
  with g show ?case by simp
next
  case (Seq a b)
  from Seq.prems(2) obtain g1 mid g2 where a: "(g1, mid) \<in> set (rmatch a s)"
    and b: "(g2, rest) \<in> set (rmatch b mid)"
    and g: "g = (case g2 of None \<Rightarrow> g1 | Some w \<Rightarrow> Some w)"
    by auto
  from Seq.prems(1) consider "grp_num a" "grp_free b" | "grp_free a" "grp_num b" by auto
  then show ?case
  proof cases
    case 1
    from grp_free_none [OF 1(2) b] have "g2 = None" .
    with g Seq.IH(1) [OF 1(1) a] show ?thesis by simp
  next
    case 2
    from Seq.IH(2) [OF 2(2) b] g show ?thesis by auto
  qed
qed simp_all

lemma search_way: "search r s = Some g \<Longrightarrow> \<exists>t rest. (g, rest) \<in> set (rmatch r t)"
proof (induction s)
  case Nil
  then obtain way ways where w: "rmatch r [] = way # ways" and "fst way = g"
    by (cases "rmatch r []") (auto split: prod.splits)
  then have "(g, snd way) \<in> set (rmatch r [])" by (cases way) simp
  then show ?case by blast
next
  case (Cons x xs)
  show ?case
  proof (cases "rmatch r (x # xs)")
    case Nil
    with Cons show ?thesis by simp
  next
    case (Cons way ways)
    with Cons.prems have "fst way = g" by (cases way) simp
    with Cons have "(g, snd way) \<in> set (rmatch r (x # xs))" by (cases way) auto
    then show ?thesis by blast
  qed
qed

lemma search_grp_num:
  assumes "grp_num r" and "search r s = Some g"
  shows "\<exists>w. g = Some w \<and> is_numeral w"
  using search_way [OF assms(2)] grp_num_some [OF assms(1)] by blast

section \<open>The numeral of a match is always converted\<close>

lemma digits_acc_some: "list_all is_digit ds \<Longrightarrow> \<exists>n. digits_acc a ds = Some n"
  by (induction ds arbitrary: a) (auto simp add: is_digit_def)

lemma digits_no_sep:
  "list_all is_digit ds \<Longrightarrow> dot \<notin> set ds \<and> comma \<notin> set ds"
  using not_digit_sep by (auto simp add: list_all_iff)

lemma replace_comma_digits: "list_all is_digit ds \<Longrightarrow> replace_comma ds = ds"
  unfolding replace_comma_def using digits_no_sep [of ds]
  by (intro map_idI) (auto simp add: sep_norm_def)

lemma float_of_numeral:
  assumes "is_numeral w"
  shows "\<exists>v. float_of_str (replace_comma w) = Some v"
proof -
  from assms obtain d1 c d2 where w: "w = d1 @ c # d2" and ne: "d1 \<noteq> []" "d2 \<noteq> []"
    and d: "list_all is_digit d1" "list_all is_digit d2" and c: "c = dot \<or> c = comma"
    unfolding is_numeral_def by blast
  from c have "replace_comma w = d1 @ dot # d2"
    unfolding w using replace_comma_digits [OF d(1)] replace_comma_digits [OF d(2)]
    by (auto simp add: replace_comma_def sep_norm_def)
  moreover from digits_no_sep [OF d(1)] have "\<forall>x \<in> set d1. x \<noteq> dot" by auto
  then have "takeWhile (\<lambda>c. c \<noteq> dot) (d1 @ dot # d2) = d1"
    and "dropWhile (\<lambda>c. c \<noteq> dot) (d1 @ dot # d2) = dot # d2"
    by (simp_all add: takeWhile_append2 dropWhile_append2)
  moreover from digits_acc_some [OF d(1)] obtain a where "digits_acc 0 d1 = Some a" by blast
  moreover from digits_acc_some [OF d(2)] obtain b where "digits_acc 0 d2 = Some b" by blast
  ultimately show ?thesis using ne by (simp add: float_of_str_def)
qed

lemma grp_free_lits [simp]: "grp_free (lits s)"
  by (induction s) (simp_all add: lits_def seq_def)

lemma grp_free_parts [simp]: "grp_free ws" "grp_free opt_slash" "grp_free opt_comment"
  by (simp_all add: ws_def opt_slash_def opt_comment_def seq_def)

lemma grp_num_num [simp]: "grp_num num" "\<not> grp_free num"
  by (simp_all add: num_def)

lemma grp_num_patterns:
  "list_all grp_num gas_patterns" "list_all grp_num electricity_patterns"
  "grp_num fallback_pattern"
  by (simp_all add: gas_patterns_def electricity_patterns_def fallback_pattern_def seq_def)

lemma grp_num_patterns_for: "list_all grp_num (patterns_for price_type)"
  by (simp add: patterns_for_def grp_num_patterns)

lemma search_value:
  assumes "grp_num p" and "search p low = Some g"
  shows "\<exists>w v. g = Some w \<and> is_numeral w \<and> float_of_str (replace_comma w) = Some v"
  using search_grp_num [OF assms] float_of_numeral by blast

lemma pattern_value_some:
  assumes "grp_num p"
  shows "(pattern_value p low = None) = (search p low = None)"
proof (cases "search p low")
  case None
  then show ?thesis by (simp add: pattern_value_def)
next
  case (Some g)
  from search_value [OF assms Some] Some show ?thesis by (auto simp add: pattern_value_def)
qed

text \<open>The loop, on patterns whose group is the numeral.\<close>

lemma try_patterns_cons:
  assumes "grp_num p"
  shows "try_patterns float_of_str (p # ps) low =
           (case pattern_value p low of
              Some v \<Rightarrow> Some (Inr v)
            | None \<Rightarrow> try_patterns float_of_str ps low)"
proof (cases "search p low")
  case None
  then show ?thesis by (simp add: pattern_value_def)
next
  case (Some g)
  from search_value [OF assms Some] Some show ?thesis by (auto simp add: pattern_value_def)
qed

lemma try_patterns_none:
  assumes "list_all grp_num ps" and "\<forall>p \<in> set ps. search p low = None"
  shows "try_patterns flo ps low = None"
  using assms by (induction ps) simp_all

lemma try_patterns_first:
  assumes "list_all grp_num ps" and "i < length ps"
    and "search (ps ! i) low \<noteq> None"
    and "\<forall>j < i. search (ps ! j) low = None"
  shows "\<exists>v. pattern_value (ps ! i) low = Some v
           \<and> try_patterns float_of_str ps low = Some (Inr v)"
  using assms
proof (induction ps arbitrary: i)
  case Nil
  then show ?case by simp
next
  case (Cons p ps)
  from Cons.prems(1) have p: "grp_num p" and ps: "list_all grp_num ps" by simp_all
  show ?case
  proof (cases i)
    case 0
    with Cons.prems(3) pattern_value_some [OF p, of low]
    obtain v where "pattern_value p low = Some v" by auto
    with 0 show ?thesis by (simp add: try_patterns_cons [OF p] del: try_patterns.simps)
  next
    case (Suc k)
    with Cons.prems(4) have "search p low = None" by auto
    then have skip: "pattern_value p low = None" by (simp add: pattern_value_def)
    from Suc Cons.prems have "k < length ps" "search (ps ! k) low \<noteq> None"
      "\<forall>j < k. search (ps ! j) low = None" by auto
    from Cons.IH [OF ps this] Suc skip show ?thesis
      by (simp add: try_patterns_cons [OF p] del: try_patterns.simps)
  qed
qed

lemma try_patterns_total:
  assumes "list_all grp_num ps"
  shows "try_patterns float_of_str ps low = None
         \<or> (\<exists>v. try_patterns float_of_str ps low = Some (Inr v))"
  using assms
proof (induction ps)
  case Nil
  then show ?case by simp
next
  case (Cons p ps)
  then have p: "grp_num p" by simp
  from Cons show ?case
    by (cases "pattern_value p low")
       (simp_all add: try_patterns_cons [OF p] del: try_patterns.simps)
qed

lemma extract_by_patterns:
  "extract_price_from_text text price_type =
     (case try_patterns float_of_str (patterns_for price_type) (str_lower text) of
        Some (Inl e) \<Rightarrow> Inl e
      | Some (Inr v) \<Rightarrow> Inr (Some v)
      | None \<Rightarrow> Inr (pattern_value fallback_pattern (str_lower text)))"
proof (cases "search fallback_pattern (str_lower text)")
  case None
  then show ?thesis
    by (simp add: extract_price_from_text_def extract_with_def pattern_value_def Let_def
          split: option.splits sum.splits)
next
  case (Some g)
  from search_value [OF grp_num_patterns(3) Some] Some show ?thesis
    by (auto simp add: extract_price_from_text_def extract_with_def pattern_value_def
          Let_def split: option.splits sum.splits)
qed

lemma extract_total: "\<exists>r. extract_price_from_text text price_type = Inr r"
  using try_patterns_total [OF grp_num_patterns_for, of price_type "str_lower text"]
  by (auto simp add: extract_by_patterns)

section \<open>A comma and a period are treated alike\<close>

lemma class_blind_norm: "class_blind k \<Longrightarrow> in_class k (sep_norm c) = in_class k c"
  by (simp add: class_blind_def sep_norm_def)

lemma star_ways_norm:
  "class_blind k \<Longrightarrow> star_ways k (replace_comma s) = map replace_comma (star_ways k s)"
  by (induction s) (simp_all add: replace_comma_def class_blind_norm)

lemma lit_norm: "c \<noteq> comma \<Longrightarrow> c \<noteq> dot \<Longrightarrow> (sep_norm x = c) = (x = c)"
  by (auto simp add: sep_norm_def)


lemma norm_way_simp [simp]: "norm_way (g, rest) = (map_option replace_comma g, replace_comma rest)"
  by (simp add: norm_way_def)

lemma norm_way_proj [simp]:
  "fst (norm_way x) = map_option replace_comma (fst x)"
  "snd (norm_way x) = replace_comma (snd x)"
  by (cases x, simp)+

lemma rmatch_norm:
  "sep_blind r \<Longrightarrow> rmatch r (replace_comma s) = map norm_way (rmatch r s)"
proof (induction r arbitrary: s)
  case Eps
  then show ?case by simp
next
  case (Lit c)
  then show ?case by (cases s) (simp_all add: replace_comma_def lit_norm)
next
  case (Cls k)
  then show ?case by (cases s) (simp_all add: replace_comma_def class_blind_norm)
next
  case (Star k)
  then show ?case by (simp add: star_ways_norm comp_def)
next
  case (Plus k)
  then show ?case
  proof (cases s)
    case Nil
    then show ?thesis by (simp add: replace_comma_def)
  next
    case (Cons x xs)
    have "replace_comma (x # xs) = sep_norm x # replace_comma xs"
      by (simp add: replace_comma_def)
    with Plus Cons show ?thesis by (simp add: star_ways_norm class_blind_norm comp_def)
  qed
next
  case (Opt r)
  then show ?case by simp
next
  case (Group r)
  have "\<And>g rest. (g, rest) \<in> set (rmatch r s) \<Longrightarrow>
          take (length (replace_comma s) - length (replace_comma rest)) (replace_comma s)
            = replace_comma (take (length s - length rest) s)"
    by (simp add: replace_comma_def take_map)
  with Group show ?case by (auto simp add: comp_def split_beta replace_comma_def take_map)
next
  case (Seq a b)
  let ?join = "\<lambda>g :: pystr option. \<lambda>(g', rest').
                 (case g' of None \<Rightarrow> g | Some w \<Rightarrow> Some w, rest' :: pystr)"
  let ?then_b = "\<lambda>(g, rest). map (?join g) (rmatch b rest)"
  have a: "rmatch a (replace_comma s) = map norm_way (rmatch a s)"
    using Seq by simp
  have b: "\<And>t. rmatch b (replace_comma t) = map norm_way (rmatch b t)"
    using Seq by simp
  have join: "?join (map_option replace_comma g) (norm_way y) = norm_way (?join g y)" for g y
    by (cases y; cases "fst y") auto
  have step: "?then_b (norm_way x) = map norm_way (?then_b x)" for x
  proof -
    obtain g rest where x: "x = (g, rest)" by (cases x)
    have "?then_b (norm_way x)
            = map (?join (map_option replace_comma g)) (map norm_way (rmatch b rest))"
      unfolding x by (simp add: b)
    also have "\<dots> = map (\<lambda>y. ?join (map_option replace_comma g) (norm_way y)) (rmatch b rest)"
      by (simp add: comp_def)
    also have "\<dots> = map (\<lambda>y. norm_way (?join g y)) (rmatch b rest)"
      by (simp only: join)
    also have "\<dots> = map norm_way (?then_b x)"
      unfolding x by (simp add: comp_def)
    finally show ?thesis .
  qed
  have "rmatch (Seq a b) (replace_comma s) = concat (map ?then_b (rmatch a (replace_comma s)))"
    by simp
  also have "\<dots> = concat (map (\<lambda>x. ?then_b (norm_way x)) (rmatch a s))"
    unfolding a by (simp add: comp_def)
  also have "\<dots> = concat (map (\<lambda>x. map norm_way (?then_b x)) (rmatch a s))"
    by (simp only: step)
  also have "\<dots> = map norm_way (concat (map ?then_b (rmatch a s)))"
    by (simp add: map_concat comp_def)
  also have "\<dots> = map norm_way (rmatch (Seq a b) s)"
    by simp
  finally show ?case .
qed

lemma search_norm:
  "sep_blind r \<Longrightarrow>
   search r (replace_comma s) = map_option (map_option replace_comma) (search r s)"
proof (induction s)
  case Nil
  have e: "replace_comma [] = []" by (simp add: replace_comma_def)
  from rmatch_norm [OF Nil, of "[]"] show ?case
    unfolding e by (cases "rmatch r []") auto
next
  case (Cons x xs)
  have e: "replace_comma (x # xs) = sep_norm x # replace_comma xs"
    by (simp add: replace_comma_def)
  from rmatch_norm [OF Cons.prems, of "x # xs"] Cons show ?case
    unfolding e by (cases "rmatch r (x # xs)") auto
qed

lemma replace_comma_idem [simp]: "replace_comma (replace_comma g) = replace_comma g"
  by (simp add: replace_comma_def sep_norm_def comma_def dot_def)

lemma str_lower_norm: "str_lower (replace_comma s) = replace_comma (str_lower s)"
proof -
  have "\<And>c. lower_cp (sep_norm c) = map sep_norm (lower_cp c)"
    by (simp add: lower_cp_def sep_norm_def comma_def dot_def)
  then show ?thesis
    by (induction s) (simp_all add: str_lower_def replace_comma_def)
qed

lemma try_patterns_norm:
  "list_all sep_blind ps \<Longrightarrow>
   try_patterns flo ps (replace_comma low) = try_patterns flo ps low"
proof (induction ps)
  case Nil
  then show ?case by simp
next
  case (Cons p ps)
  then have "sep_blind p" by simp
  from search_norm [OF this, of low] Cons show ?case
    by (cases "search p low") (auto split: option.splits)
qed

lemma class_blind_digit [simp]: "class_blind Digit"
  using not_digit_sep by (simp add: class_blind_def)

lemma class_blind_space [simp]: "class_blind Space"
  by (simp add: class_blind_def is_space_def comma_def dot_def)

lemma class_blind_sep [simp]: "class_blind (AnyOf [dot, comma])"
  by (simp add: class_blind_def)

lemma class_blind_not_gt [simp]: "class_blind (NoneOf [62])"
  by (simp add: class_blind_def comma_def dot_def)

lemma euro_not_sep [simp]: "euro \<noteq> comma" "euro \<noteq> dot"
  by (simp_all add: euro_def comma_def dot_def)

lemma sep_blind_lits:
  "comma \<notin> of_char ` set s \<Longrightarrow> dot \<notin> of_char ` set s \<Longrightarrow> sep_blind (lits s)"
  by (induction s) (auto simp add: lits_def seq_def)

lemma sep_blind_parts [simp]:
  "sep_blind num" "sep_blind ws" "sep_blind opt_slash" "sep_blind opt_comment"
  "sep_blind (Lit euro)"
proof -
  show "sep_blind num" by (simp add: num_def numeral_body_def)
  show "sep_blind ws" by (simp add: ws_def)
  show "sep_blind opt_slash" by (simp add: opt_slash_def comma_def dot_def)
  have "sep_blind (lits ''<!--'')" "sep_blind (lits ''-->'')"
    by (simp_all add: sep_blind_lits comma_def dot_def)
  then show "sep_blind opt_comment" by (simp add: opt_comment_def seq_def)
  show "sep_blind (Lit euro)" by (simp add: euro_def comma_def dot_def)
qed

lemma sep_blind_units [simp]:
  "sep_blind (lits ''s'')" "sep_blind (lits ''mc'')" "sep_blind (lits ''/smc'')"
  "sep_blind (lits ''/mc'')" "sep_blind (lits ''k'')" "sep_blind (lits '' '')"
  "sep_blind (lits ''wh'')" "sep_blind (lits ''/kWh'')" "sep_blind (lits ''/kW'')"
  by (simp_all add: sep_blind_lits comma_def dot_def)

lemma sep_blind_patterns:
  "list_all sep_blind gas_patterns" "list_all sep_blind electricity_patterns"
  "sep_blind fallback_pattern"
  by (simp_all add: gas_patterns_def electricity_patterns_def fallback_pattern_def seq_def
        sep_blind_lits)

lemma extract_with_norm:
  "extract_with flo (replace_comma text) price_type = extract_with flo text price_type"
proof -
  have ps: "list_all sep_blind (patterns_for price_type)"
    by (simp add: patterns_for_def sep_blind_patterns)
  show ?thesis
    unfolding extract_with_def Let_def str_lower_norm try_patterns_norm [OF ps]
      search_norm [OF sep_blind_patterns(3)]
    by (cases "search fallback_pattern (str_lower text)") (auto split: option.splits)
qed

lemma extract_same_up_to_separator:
  assumes "replace_comma a = replace_comma b"
  shows "extract_price_from_text a price_type = extract_price_from_text b price_type"
  unfolding extract_price_from_text_def
  using extract_with_norm [of float_of_str a price_type]
    extract_with_norm [of float_of_str b price_type] assms by simp

section \<open>A literal that the text lacks\<close>

lemma needs_absent: "needs c r \<Longrightarrow> c \<notin> set s \<Longrightarrow> rmatch r s = []"
proof (induction r arbitrary: s)
  case (Lit d)
  then show ?case by (cases s) auto
next
  case (Seq a b)
  show ?case
  proof (cases "needs c a")
    case True
    with Seq show ?thesis by simp
  next
    case False
    with Seq.prems have nb: "needs c b" by simp
    have "\<And>g rest. (g, rest) \<in> set (rmatch a s) \<Longrightarrow> rmatch b rest = []"
    proof -
      fix g rest
      assume "(g, rest) \<in> set (rmatch a s)"
      from rmatch_suffix [OF this] obtain w where "s = w @ rest" by blast
      with Seq.prems(2) have "c \<notin> set rest" by simp
      with Seq.IH(2) [OF nb] show "rmatch b rest = []" by blast
    qed
    then show ?thesis by (auto simp add: split_beta)
  qed
qed simp_all

lemma search_needs: "needs c r \<Longrightarrow> c \<notin> set s \<Longrightarrow> search r s = None"
  by (induction s) (simp_all add: needs_absent)

lemma no_upper_in_lower: "65 \<le> c \<Longrightarrow> c \<le> 90 \<Longrightarrow> c \<notin> set (str_lower s)"
  by (induction s) (auto simp add: str_lower_def lower_cp_def)

lemma needs_lits: "c \<in> of_char ` set s \<Longrightarrow> needs c (seq (xs @ [lits s]))"
proof (induction xs)
  case Nil
  then show ?case by (induction s) (auto simp add: seq_def lits_def)
next
  case (Cons x xs)
  then show ?case by (simp add: seq_def)
qed

lemma upper_w_patterns_dead:
  "i \<in> {2, 3, 6, 7} \<Longrightarrow> search (electricity_patterns ! i) (str_lower text) = None"
proof -
  assume i: "i \<in> {2, 3, 6, 7}"
  have w: "(87::nat) \<notin> set (str_lower text)" by (rule no_upper_in_lower) simp_all
  have "needs 87 (electricity_patterns ! i)"
    using i needs_lits [of 87 "''/kWh''" "[num, opt_comment, ws, Lit euro]"]
      needs_lits [of 87 "''/kW''" "[num, opt_comment, ws, Lit euro]"]
      needs_lits [of 87 "''/kWh''" "[num, ws, Lit euro]"]
      needs_lits [of 87 "''/kW''" "[num, ws, Lit euro]"]
    by (auto simp add: electricity_patterns_def)
  from search_needs [OF this w] show ?thesis .
qed

section \<open>A numeral at the head of the text\<close>

lemma first_way_seq:
  assumes "first_way a s = Some (g1, mid)" and "first_way b mid = Some (g2, rest)"
  shows "first_way (Seq a b) s = Some (case g2 of None \<Rightarrow> g1 | Some w \<Rightarrow> Some w, rest)"
proof -
  from assms(1) obtain ws1 where a: "rmatch a s = (g1, mid) # ws1"
    by (auto simp add: first_way_def split: list.splits)
  from assms(2) obtain ws2 where b: "rmatch b mid = (g2, rest) # ws2"
    by (auto simp add: first_way_def split: list.splits)
  show ?thesis by (simp add: first_way_def a b)
qed

lemma first_way_seq_none:
  assumes "first_way a s = Some (None, mid)" and "first_way b mid = Some (g2, rest)"
  shows "first_way (Seq a b) s = Some (g2, rest)"
  using first_way_seq [OF assms] by (cases g2) simp_all

lemma first_way_group:
  assumes "first_way r (w @ rest) = Some (g, rest)"
  shows "first_way (Group r) (w @ rest) = Some (Some w, rest)"
proof -
  from assms obtain ws1 where "rmatch r (w @ rest) = (g, rest) # ws1"
    by (auto simp add: first_way_def split: list.splits)
  then show ?thesis by (simp add: first_way_def)
qed

lemma star_ways_run:
  assumes "list_all (in_class k) ds" and "tail = [] \<or> \<not> in_class k (hd tail)"
  shows "\<exists>others. star_ways k (ds @ tail) = tail # others"
  using assms
proof (induction ds)
  case Nil
  then show ?case by (cases tail) simp_all
next
  case (Cons d ds)
  then obtain others where "star_ways k (ds @ tail) = tail # others" by auto
  with Cons.prems show ?case by simp
qed

lemma first_way_plus:
  assumes "list_all (in_class k) ds" and "ds \<noteq> []"
    and "tail = [] \<or> \<not> in_class k (hd tail)"
  shows "first_way (Plus k) (ds @ tail) = Some (None, tail)"
proof -
  from assms(2) obtain d ds' where ds: "ds = d # ds'" by (cases ds) auto
  with assms(1) have d: "in_class k d" and "list_all (in_class k) ds'" by simp_all
  from star_ways_run [OF this(2) assms(3)] obtain others where
    "star_ways k (ds' @ tail) = tail # others" by blast
  with d ds show ?thesis by (simp add: first_way_def)
qed

lemma first_way_num:
  assumes "list_all is_digit d1" "d1 \<noteq> []" "list_all is_digit d2" "d2 \<noteq> []"
    and "c = dot \<or> c = comma" and "tail = [] \<or> \<not> is_digit (hd tail)"
  shows "first_way num (d1 @ c # d2 @ tail) = Some (Some (d1 @ c # d2), tail)"
proof -
  have digit: "list_all (in_class Digit) d1" "list_all (in_class Digit) d2"
    using assms(1,3) by (simp_all add: list_all_iff)
  from assms(5) not_digit_sep have "\<not> in_class Digit (hd (c # d2 @ tail))" by auto
  then have p1: "first_way (Plus Digit) (d1 @ c # d2 @ tail) = Some (None, c # d2 @ tail)"
    using first_way_plus [OF digit(1) assms(2), of "c # d2 @ tail"] by simp
  have p2: "first_way (Cls (AnyOf [dot, comma])) (c # d2 @ tail) = Some (None, d2 @ tail)"
    using assms(5) by (auto simp add: first_way_def)
  have p3: "first_way (Plus Digit) (d2 @ tail) = Some (None, tail)"
    using first_way_plus [OF digit(2) assms(4), of tail] assms(6) by simp
  have "first_way numeral_body (d1 @ c # d2 @ tail) = Some (None, tail)"
    unfolding numeral_body_def
    by (rule first_way_seq_none [OF p1 first_way_seq_none [OF p2 p3]])
  then have "first_way numeral_body ((d1 @ c # d2) @ tail) = Some (None, tail)" by simp
  from first_way_group [OF this] show ?thesis by (simp add: num_def)
qed

lemma search_first: "first_way r s = Some (g, rest) \<Longrightarrow> search r s = Some g"
  by (cases s) (auto simp add: first_way_def split: list.splits)

lemma digits_acc_nat: "list_all is_digit ds \<Longrightarrow> digits_acc a ds = Some (digits_nat a ds)"
  by (induction ds arbitrary: a) (auto simp add: is_digit_def)

lemma float_of_numeral_value:
  assumes "list_all is_digit d1" "d1 \<noteq> []" "list_all is_digit d2" "d2 \<noteq> []"
    and c: "c = dot \<or> c = comma"
  shows "float_of_str (replace_comma (d1 @ c # d2)) = Some (decimal_of d1 d2)"
proof -
  from c have "replace_comma (d1 @ c # d2) = d1 @ dot # d2"
    using replace_comma_digits [OF assms(1)] replace_comma_digits [OF assms(3)]
    by (auto simp add: replace_comma_def sep_norm_def)
  moreover from digits_no_sep [OF assms(1)] have "\<forall>x \<in> set d1. x \<noteq> dot" by auto
  then have "takeWhile (\<lambda>c. c \<noteq> dot) (d1 @ dot # d2) = d1"
    and "dropWhile (\<lambda>c. c \<noteq> dot) (d1 @ dot # d2) = dot # d2"
    by (simp_all add: takeWhile_append2 dropWhile_append2)
  ultimately show ?thesis
    using assms(2,4) digits_acc_nat [OF assms(1)] digits_acc_nat [OF assms(3)]
    by (simp add: float_of_str_def decimal_of_def)
qed

lemma lower_cp_digit: "is_digit c \<Longrightarrow> lower_cp c = [c]"
proof -
  assume d: "is_digit c"
  have "\<not> is_digit 304" "\<not> is_digit 8490"
    by (simp_all add: is_digit_def digit_value_def decimal_zeros_def)
  moreover have "65 \<le> c \<and> c \<le> 90 \<Longrightarrow> \<not> is_digit c" by (simp add: is_digit_low)
  ultimately show ?thesis using d by (auto simp add: lower_cp_def)
qed

lemma str_lower_append: "str_lower (a @ b) = str_lower a @ str_lower b"
  by (simp add: str_lower_def)

lemma str_lower_digits: "list_all is_digit ds \<Longrightarrow> str_lower ds = ds"
  by (induction ds) (simp_all add: str_lower_def lower_cp_digit)

lemma str_lower_numeral:
  assumes "list_all is_digit d1" "list_all is_digit d2" "c = dot \<or> c = comma"
  shows "str_lower (d1 @ c # d2 @ tail) = d1 @ c # d2 @ str_lower tail"
proof -
  from assms(3) have "str_lower [c] = [c]"
    by (auto simp add: str_lower_def lower_cp_def dot_def comma_def)
  then have "str_lower (c # d2 @ tail) = c # str_lower d2 @ str_lower tail"
    using str_lower_append [of "[c]" "d2 @ tail"] by (simp add: str_lower_append)
  with assms(1,2) show ?thesis by (simp add: str_lower_append str_lower_digits)
qed

text \<open>A numeral at the head of the text, followed by what the rest of a pattern matches.\<close>

lemma pattern_value_head:
  assumes d: "list_all is_digit d1" "d1 \<noteq> []" "list_all is_digit d2" "d2 \<noteq> []"
    and c: "c = dot \<or> c = comma" and stop: "tail = [] \<or> \<not> is_digit (hd tail)"
    and rest: "first_way r tail = Some (None, left)"
  shows "pattern_value (Seq num r) (d1 @ c # d2 @ tail) = Some (decimal_of d1 d2)"
proof -
  from first_way_seq [OF first_way_num [OF d c stop] rest]
  have "first_way (Seq num r) (d1 @ c # d2 @ tail) = Some (Some (d1 @ c # d2), left)" by simp
  from search_first [OF this] float_of_numeral_value [OF d c] show ?thesis
    by (simp add: pattern_value_def)
qed

lemma extract_numeral_head:
  assumes d: "list_all is_digit d1" "d1 \<noteq> []" "list_all is_digit d2" "d2 \<noteq> []"
    and c: "c = dot \<or> c = comma"
    and low: "str_lower tail = low"
    and stop: "low = [] \<or> \<not> is_digit (hd low)"
    and first: "patterns_for price_type = Seq num r # ps"
    and rest: "first_way r low = Some (None, left)"
  shows "extract_price_from_text (d1 @ c # d2 @ tail) price_type
           = Inr (Some (decimal_of d1 d2))"
proof -
  have l: "str_lower (d1 @ c # d2 @ tail) = d1 @ c # d2 @ low"
    unfolding str_lower_numeral [OF d(1) d(3) c] low ..
  have g: "grp_num (Seq num r)"
    using grp_num_patterns_for [of price_type] unfolding first by simp
  from pattern_value_head [OF d c stop rest]
  have v: "pattern_value (Seq num r) (d1 @ c # d2 @ low) = Some (decimal_of d1 d2)" .
  have "try_patterns float_of_str (patterns_for price_type) (d1 @ c # d2 @ low)
          = Some (Inr (decimal_of d1 d2))"
    unfolding first by (simp add: try_patterns_cons [OF g] v del: try_patterns.simps)
  then show ?thesis by (simp add: extract_by_patterns l)
qed

lemmas tail_defs = first_way_def seq_def lits_def opt_comment_def ws_def opt_slash_def
  codepoints_def euro_def is_space_def is_digit_low str_lower_def lower_cp_def

lemma electricity_first:
  "patterns_for ''electricity'' =
     Seq num (seq [opt_comment, ws, Lit euro, ws, opt_slash, ws, Opt (lits ''k''),
                   Opt (lits '' ''), lits ''wh'']) # tl electricity_patterns"
  by (simp add: patterns_for_def electricity_patterns_def seq_def)

lemma gas_first:
  "patterns_for ''gas'' =
     Seq num (seq [opt_comment, ws, Lit euro, ws, opt_slash, ws, Opt (lits ''s''),
                   lits ''mc'']) # tl gas_patterns"
  by (simp add: patterns_for_def gas_patterns_def seq_def)

lemma extract_numeral_unit:
  assumes d: "list_all is_digit d1" "d1 \<noteq> []" "list_all is_digit d2" "d2 \<noteq> []"
    and c: "c = dot \<or> c = comma"
  shows "extract_price_from_text (d1 @ c # d2 @ codepoints '' '' @ euro # codepoints ''/kWh'')
           ''electricity'' = Inr (Some (decimal_of d1 d2))"
    and "extract_price_from_text (d1 @ c # d2 @ codepoints '' '' @ euro # codepoints ''/Smc'')
           ''gas'' = Inr (Some (decimal_of d1 d2))"
proof -
  show "extract_price_from_text (d1 @ c # d2 @ codepoints '' '' @ euro # codepoints ''/kWh'')
           ''electricity'' = Inr (Some (decimal_of d1 d2))"
    by (rule extract_numeral_head [OF d c _ _ electricity_first,
          where low = "codepoints '' '' @ euro # codepoints ''/kwh''" and left = "[]"])
       (simp_all add: tail_defs)
  show "extract_price_from_text (d1 @ c # d2 @ codepoints '' '' @ euro # codepoints ''/Smc'')
           ''gas'' = Inr (Some (decimal_of d1 d2))"
    by (rule extract_numeral_head [OF d c _ _ gas_first,
          where low = "codepoints '' '' @ euro # codepoints ''/smc''" and left = "[]"])
       (simp_all add: tail_defs)
qed

text \<open>
  A comment between the numeral and the unit, the unit in any letter case: \<open>u\<close> is any
  text that lowers to the unit.
\<close>

lemma str_lower_comment:
  "str_lower (codepoints ''<!-- -->'' @ euro # u) = codepoints ''<!-- -->'' @ euro # str_lower u"
  by (simp add: str_lower_def lower_cp_def codepoints_def euro_def)

lemma extract_numeral_comment_unit:
  assumes d: "list_all is_digit d1" "d1 \<noteq> []" "list_all is_digit d2" "d2 \<noteq> []"
    and c: "c = dot \<or> c = comma"
  shows "str_lower u = codepoints ''/kwh'' \<Longrightarrow>
         extract_price_from_text (d1 @ c # d2 @ codepoints ''<!-- -->'' @ euro # u)
           ''electricity'' = Inr (Some (decimal_of d1 d2))"
    and "str_lower u = codepoints ''/smc'' \<or> str_lower u = codepoints ''/mc'' \<Longrightarrow>
         extract_price_from_text (d1 @ c # d2 @ codepoints ''<!-- -->'' @ euro # u)
           ''gas'' = Inr (Some (decimal_of d1 d2))"
proof -
  assume u: "str_lower u = codepoints ''/kwh''"
  show "extract_price_from_text (d1 @ c # d2 @ codepoints ''<!-- -->'' @ euro # u)
           ''electricity'' = Inr (Some (decimal_of d1 d2))"
    by (rule extract_numeral_head [OF d c _ _ electricity_first,
          where low = "codepoints ''<!-- -->'' @ euro # codepoints ''/kwh''" and left = "[]"])
       (simp_all add: str_lower_comment u, simp_all add: tail_defs)
next
  assume u: "str_lower u = codepoints ''/smc'' \<or> str_lower u = codepoints ''/mc''"
  then show "extract_price_from_text (d1 @ c # d2 @ codepoints ''<!-- -->'' @ euro # u)
           ''gas'' = Inr (Some (decimal_of d1 d2))"
  proof
    assume s: "str_lower u = codepoints ''/smc''"
    show ?thesis
      by (rule extract_numeral_head [OF d c _ _ gas_first,
            where low = "codepoints ''<!-- -->'' @ euro # codepoints ''/smc''" and left = "[]"])
         (simp_all add: str_lower_comment s, simp_all add: tail_defs)
  next
    assume m: "str_lower u = codepoints ''/mc''"
    show ?thesis
      by (rule extract_numeral_head [OF d c _ _ gas_first,
            where low = "codepoints ''<!-- -->'' @ euro # codepoints ''/mc''" and left = "[]"])
         (simp_all add: str_lower_comment m, simp_all add: tail_defs)
  qed
qed

lemma decimal_example: "decimal_of (codepoints ''0'') (codepoints ''1067'') = Fin (1067 / 10000)"
  by (simp add: decimal_of_def codepoints_def digit_value_ascii)

section \<open>Properties of the extraction\<close>

lemmas eval_defs = extract_price_from_text_def extract_with_def patterns_for_def
  electricity_patterns_def gas_patterns_def fallback_pattern_def seq_def lits_def num_def
  numeral_body_def opt_comment_def ws_def opt_slash_def str_lower_def lower_cp_def
  codepoints_def euro_def is_digit_low not_digit_euro digit_value_ascii is_space_def
  comma_def dot_def float_of_str_def replace_comma_def sep_norm_def Let_def pattern_value_def

text \<open>
  C6. A text with a comma as the separator of a numeral and the same text with a period
  there extract to the same result, for every commodity (the two texts may be anything
  around the separator). A numeral of digits, either separator and digits, followed by
  the unit of the commodity, extracts to the decimal that it writes, the same for both
  separators. In particular \<open>0,1067\<close> and \<open>0.1067\<close> before the unit both extract to 0.1067.
\<close>

theorem separator_comma_or_period:
  "extract_price_from_text (pre @ d1 @ comma # d2 @ post) price_type
     = extract_price_from_text (pre @ d1 @ dot # d2 @ post) price_type
   \<and> (list_all is_digit n1 \<and> n1 \<noteq> [] \<and> list_all is_digit n2 \<and> n2 \<noteq> []
        \<and> (c = dot \<or> c = comma) \<longrightarrow>
        extract_price_from_text (n1 @ c # n2 @ codepoints '' '' @ euro # codepoints ''/kWh'')
          ''electricity'' = Inr (Some (decimal_of n1 n2))
        \<and> extract_price_from_text (n1 @ c # n2 @ codepoints '' '' @ euro # codepoints ''/Smc'')
          ''gas'' = Inr (Some (decimal_of n1 n2)))
   \<and> decimal_of (codepoints ''0'') (codepoints ''1067'') = Fin (1067 / 10000)
   \<and> extract_price_from_text (codepoints ''0,1067 '' @ euro # codepoints ''/kWh'')
         ''electricity'' = Inr (Some (Fin (1067 / 10000)))
   \<and> extract_price_from_text (codepoints ''0.1067 '' @ euro # codepoints ''/kWh'')
         ''electricity'' = Inr (Some (Fin (1067 / 10000)))
   \<and> extract_price_from_text (codepoints ''0,1067 '' @ euro # codepoints ''/Smc'')
         ''gas'' = Inr (Some (Fin (1067 / 10000)))
   \<and> extract_price_from_text (codepoints ''0.1067 '' @ euro # codepoints ''/Smc'')
         ''gas'' = Inr (Some (Fin (1067 / 10000)))"
proof -
  have "replace_comma (pre @ d1 @ comma # d2 @ post) = replace_comma (pre @ d1 @ dot # d2 @ post)"
    by (simp add: replace_comma_def sep_norm_def)
  then have same: "extract_price_from_text (pre @ d1 @ comma # d2 @ post) price_type
     = extract_price_from_text (pre @ d1 @ dot # d2 @ post) price_type"
    by (rule extract_same_up_to_separator)
  have numeral: "list_all is_digit n1 \<and> n1 \<noteq> [] \<and> list_all is_digit n2 \<and> n2 \<noteq> []
        \<and> (c = dot \<or> c = comma) \<longrightarrow>
        extract_price_from_text (n1 @ c # n2 @ codepoints '' '' @ euro # codepoints ''/kWh'')
          ''electricity'' = Inr (Some (decimal_of n1 n2))
        \<and> extract_price_from_text (n1 @ c # n2 @ codepoints '' '' @ euro # codepoints ''/Smc'')
          ''gas'' = Inr (Some (decimal_of n1 n2))"
    using extract_numeral_unit [of n1 n2 c] by blast
  have e1: "extract_price_from_text (codepoints ''0,1067 '' @ euro # codepoints ''/kWh'')
         ''electricity'' = Inr (Some (Fin (1067 / 10000)))"
    by (simp add: eval_defs)
  have e2: "extract_price_from_text (codepoints ''0.1067 '' @ euro # codepoints ''/kWh'')
         ''electricity'' = Inr (Some (Fin (1067 / 10000)))"
    by (simp add: eval_defs)
  have g1: "extract_price_from_text (codepoints ''0,1067 '' @ euro # codepoints ''/Smc'')
         ''gas'' = Inr (Some (Fin (1067 / 10000)))"
    by (simp add: eval_defs)
  have g2: "extract_price_from_text (codepoints ''0.1067 '' @ euro # codepoints ''/Smc'')
         ''gas'' = Inr (Some (Fin (1067 / 10000)))"
    by (simp add: eval_defs)
  from same numeral decimal_example e1 e2 g1 g2 show ?thesis by blast
qed

theorem separator_comma_or_period_witness:
  "list_all is_digit (codepoints ''0'') \<and> list_all is_digit (codepoints ''1067'')
   \<and> extract_price_from_text
        (codepoints ''0'' @ comma # codepoints ''1067'' @ codepoints '' '' @ euro # codepoints ''/kWh'')
        ''electricity'' = Inr (Some (Fin (1067 / 10000)))
   \<and> extract_price_from_text
        (codepoints ''0'' @ dot # codepoints ''1067'' @ codepoints '' '' @ euro # codepoints ''/Smc'')
        ''gas'' = Inr (Some (Fin (1067 / 10000)))"
proof -
  have d: "list_all is_digit (codepoints ''0'')" "list_all is_digit (codepoints ''1067'')"
    by (simp_all add: codepoints_def is_digit_low)
  have ne: "codepoints ''0'' \<noteq> []" "codepoints ''1067'' \<noteq> []"
    by (simp_all add: codepoints_def)
  from separator_comma_or_period [where ?n1.0 = "codepoints ''0''"
         and ?n2.0 = "codepoints ''1067''" and c = comma]
       separator_comma_or_period [where ?n1.0 = "codepoints ''0''"
         and ?n2.0 = "codepoints ''1067''" and c = dot] d ne
  show ?thesis by simp
qed

lemma try_patterns_find:
  assumes "list_all grp_num ps"
  shows "try_patterns float_of_str ps low =
           (case find (\<lambda>p. search p low \<noteq> None) ps of
              None \<Rightarrow> None
            | Some p \<Rightarrow> map_option Inr (pattern_value p low))"
  using assms
proof (induction ps)
  case Nil
  then show ?case by simp
next
  case (Cons p ps)
  then have p: "grp_num p" and ps: "list_all grp_num ps" by simp_all
  show ?case
  proof (cases "search p low")
    case None
    then have "pattern_value p low = None" by (simp add: pattern_value_def)
    with None Cons.IH [OF ps] show ?thesis
      by (simp add: try_patterns_cons [OF p] del: try_patterns.simps)
  next
    case (Some g)
    with pattern_value_some [OF p, of low] obtain v where "pattern_value p low = Some v"
      by auto
    with Some show ?thesis
      by (simp add: try_patterns_cons [OF p] del: try_patterns.simps)
  qed
qed

lemma find_matches:
  "find P ps = Some p \<Longrightarrow> P p \<and> p \<in> set ps"
  by (induction ps) (auto split: if_splits)

lemma extract_by_find:
  "extract_price_from_text text price_type =
     Inr (case find (\<lambda>p. search p (str_lower text) \<noteq> None) (patterns_for price_type) of
            Some p \<Rightarrow> pattern_value p (str_lower text)
          | None \<Rightarrow> pattern_value fallback_pattern (str_lower text))"
proof (cases "find (\<lambda>p. search p (str_lower text) \<noteq> None) (patterns_for price_type)")
  case None
  then show ?thesis
    by (simp add: extract_by_patterns try_patterns_find [OF grp_num_patterns_for])
next
  case (Some p)
  from find_matches [OF Some] have m: "search p (str_lower text) \<noteq> None"
    and mem: "p \<in> set (patterns_for price_type)" by simp_all
  from grp_num_patterns_for [of price_type] mem have "grp_num p"
    by (simp add: list_all_iff)
  with m obtain v where "pattern_value p (str_lower text) = Some v"
    using pattern_value_some [of p "str_lower text"] by auto
  with Some show ?thesis
    by (simp add: extract_by_patterns try_patterns_find [OF grp_num_patterns_for])
qed

text \<open>
  C7. The result of the extraction is the value of the earliest pattern, in the order of
  the commodity's list, that matches the lowered text; the pattern after the loop is
  asked only when none of the list matches. A pattern that matches always has a value.
  On the text \<open>1.00 \<euro> 0.05 \<euro>/kWh\<close> the first electricity pattern finds 0.05 and the
  pattern after the loop finds 1.00: the extraction answers 0.05.
\<close>

theorem first_matching_pattern_wins:
  "extract_price_from_text text price_type =
     Inr (case find (\<lambda>p. search p (str_lower text) \<noteq> None) (patterns_for price_type) of
            Some p \<Rightarrow> pattern_value p (str_lower text)
          | None \<Rightarrow> pattern_value fallback_pattern (str_lower text))
   \<and> list_all (\<lambda>p. (pattern_value p (str_lower text) = None) = (search p (str_lower text) = None))
        (fallback_pattern # patterns_for price_type)
   \<and> pattern_value (electricity_patterns ! 0)
        (str_lower (codepoints ''1.00 '' @ euro # codepoints '' 0.05 '' @ euro # codepoints ''/kWh''))
        = Some (Fin (5 / 100))
   \<and> pattern_value fallback_pattern
        (str_lower (codepoints ''1.00 '' @ euro # codepoints '' 0.05 '' @ euro # codepoints ''/kWh''))
        = Some (Fin 1)
   \<and> extract_price_from_text
        (codepoints ''1.00 '' @ euro # codepoints '' 0.05 '' @ euro # codepoints ''/kWh'')
        ''electricity'' = Inr (Some (Fin (5 / 100)))"
proof -
  let ?low = "str_lower text"
  let ?ps = "patterns_for price_type"
  have main: "extract_price_from_text text price_type =
     Inr (case find (\<lambda>p. search p ?low \<noteq> None) ?ps of
            Some p \<Rightarrow> pattern_value p ?low
          | None \<Rightarrow> pattern_value fallback_pattern ?low)"
    by (rule extract_by_find)
  have vals: "list_all (\<lambda>p. (pattern_value p ?low = None) = (search p ?low = None))
        (fallback_pattern # ?ps)"
    using grp_num_patterns_for [of price_type] grp_num_patterns(3)
    by (auto simp add: list_all_iff pattern_value_some)
  have x1: "pattern_value (electricity_patterns ! 0)
        (str_lower (codepoints ''1.00 '' @ euro # codepoints '' 0.05 '' @ euro # codepoints ''/kWh''))
        = Some (Fin (5 / 100))"
    by (simp add: eval_defs)
  have x2: "pattern_value fallback_pattern
        (str_lower (codepoints ''1.00 '' @ euro # codepoints '' 0.05 '' @ euro # codepoints ''/kWh''))
        = Some (Fin 1)"
    by (simp add: eval_defs)
  have x3: "extract_price_from_text
        (codepoints ''1.00 '' @ euro # codepoints '' 0.05 '' @ euro # codepoints ''/kWh'')
        ''electricity'' = Inr (Some (Fin (5 / 100)))"
    by (simp add: eval_defs)
  from main vals x1 x2 x3 show ?thesis by blast
qed

text \<open>
  C8. The extraction never raises. It answers \<open>None\<close> only when no pattern of the list
  and not the pattern after the loop matches, and a value only when it is the value of one
  of these patterns on the text. In the loop, a numeral that the conversion refuses is
  skipped and the loop goes on with the next pattern.
\<close>

theorem extraction_total:
  "(case extract_price_from_text page price_type of
      Inl e \<Rightarrow> False
    | Inr None \<Rightarrow>
        list_all (\<lambda>p. search p (str_lower page) = None)
          (patterns_for price_type @ [fallback_pattern])
    | Inr (Some v) \<Rightarrow>
        list_ex (\<lambda>p. pattern_value p (str_lower page) = Some v)
          (patterns_for price_type @ [fallback_pattern]))
   \<and> (search p low = Some (Some g) \<and> flo (replace_comma g) = None
        \<longrightarrow> try_patterns flo (p # ps) low = try_patterns flo ps low)"
proof -
  let ?low = "str_lower page"
  let ?ps = "patterns_for price_type"
  let ?first = "find (\<lambda>p. search p ?low \<noteq> None) ?ps"
  have ex: "extract_price_from_text page price_type =
     Inr (case ?first of
            Some p \<Rightarrow> pattern_value p ?low
          | None \<Rightarrow> pattern_value fallback_pattern ?low)"
    by (rule extract_by_find)
  have part1: "case extract_price_from_text page price_type of
      Inl e \<Rightarrow> False
    | Inr None \<Rightarrow> list_all (\<lambda>p. search p ?low = None) (?ps @ [fallback_pattern])
    | Inr (Some v) \<Rightarrow>
        list_ex (\<lambda>p. pattern_value p ?low = Some v) (?ps @ [fallback_pattern])"
  proof (cases ?first)
    case None
    then have none: "\<forall>p \<in> set ?ps. search p ?low = None"
      by (auto simp add: find_None_iff)
    show ?thesis
    proof (cases "pattern_value fallback_pattern ?low")
      case None
      with pattern_value_some [OF grp_num_patterns(3), of ?low] none \<open>?first = None\<close>
      show ?thesis unfolding ex by (simp add: list_all_iff)
    next
      case (Some v)
      with \<open>?first = None\<close> show ?thesis unfolding ex by (simp add: list_ex_iff)
    qed
  next
    case (Some p)
    from find_matches [OF Some] have m: "search p ?low \<noteq> None" and mem: "p \<in> set ?ps"
      by simp_all
    from grp_num_patterns_for [of price_type] mem have "grp_num p"
      by (simp add: list_all_iff)
    with m obtain v where "pattern_value p ?low = Some v"
      using pattern_value_some [of p ?low] by auto
    with Some mem show ?thesis unfolding ex by (auto simp add: list_ex_iff)
  qed
  have part2: "search p low = Some (Some g) \<and> flo (replace_comma g) = None
        \<longrightarrow> try_patterns flo (p # ps) low = try_patterns flo ps low"
    by simp
  from part1 part2 show ?thesis by blast
qed

theorem extraction_total_witness:
  "search fallback_pattern (codepoints ''0.05 '' @ [euro]) = Some (Some (codepoints ''0.05''))
   \<and> try_patterns (\<lambda>_. None) [fallback_pattern, fallback_pattern] (codepoints ''0.05 '' @ [euro])
       = try_patterns (\<lambda>_. None) [fallback_pattern] (codepoints ''0.05 '' @ [euro])
   \<and> extract_price_from_text [] ''gas'' = Inr None"
proof -
  have m: "search fallback_pattern (codepoints ''0.05 '' @ [euro])
             = Some (Some (codepoints ''0.05''))"
    by (simp add: eval_defs)
  have f: "(\<lambda>_. None :: pyfloat option) (replace_comma (codepoints ''0.05'')) = None" by simp
  have e: "extract_price_from_text [] ''gas'' = Inr None"
    by (simp add: eval_defs)
  from extraction_total [where flo = "\<lambda>_. None" and p = fallback_pattern
      and low = "codepoints ''0.05 '' @ [euro]" and g = "codepoints ''0.05''"
      and ps = "[fallback_pattern]" and page = "[]" and price_type = "''gas''"] m f e
  show ?thesis by simp
qed

text \<open>
  C9. A comment between the numeral and the unit: for \<open>\<euro>/kWh\<close>, \<open>\<euro>/Smc\<close> and \<open>\<euro>/mc\<close> the
  numeral is extracted; for \<open>\<euro>/kW\<close> nothing is extracted, because the patterns written
  for \<open>kW\<close> hold a capital \<open>W\<close> and are matched against the lowered text.
\<close>

theorem kw_after_comment_not_extracted:
  "extract_price_from_text (codepoints ''0.1067<!-- -->'' @ euro # codepoints ''/kW'')
      ''electricity'' = Inr None
   \<and> extract_price_from_text (codepoints ''0.1067<!-- -->'' @ euro # codepoints ''/kWh'')
      ''electricity'' = Inr (Some (Fin (1067 / 10000)))
   \<and> extract_price_from_text (codepoints ''0.1067<!-- -->'' @ euro # codepoints ''/Smc'')
      ''gas'' = Inr (Some (Fin (1067 / 10000)))
   \<and> extract_price_from_text (codepoints ''0.1067<!-- -->'' @ euro # codepoints ''/mc'')
      ''gas'' = Inr (Some (Fin (1067 / 10000)))"
proof -
  have a: "extract_price_from_text (codepoints ''0.1067<!-- -->'' @ euro # codepoints ''/kW'')
      ''electricity'' = Inr None"
    by (simp add: eval_defs)
  have b: "extract_price_from_text (codepoints ''0.1067<!-- -->'' @ euro # codepoints ''/kWh'')
      ''electricity'' = Inr (Some (Fin (1067 / 10000)))"
    by (simp add: eval_defs)
  have c: "extract_price_from_text (codepoints ''0.1067<!-- -->'' @ euro # codepoints ''/Smc'')
      ''gas'' = Inr (Some (Fin (1067 / 10000)))"
    by (simp add: eval_defs)
  have d: "extract_price_from_text (codepoints ''0.1067<!-- -->'' @ euro # codepoints ''/mc'')
      ''gas'' = Inr (Some (Fin (1067 / 10000)))"
    by (simp add: eval_defs)
  from a b c d show ?thesis by blast
qed

end
